theory Spec2Isabelle
  imports Complex_Main
begin

section \<open>Go strings\<close>

text \<open>
  A Go string is a sequence of bytes: \<open>string\<close> (a \<open>char list\<close>) here. The functions of
  the standard package \<open>strings\<close> that the program calls are written out after their
  documentation: \<open>HasPrefix\<close> tests a leading substring, \<open>Index\<close> gives the position of
  the first instance of a substring or \<open>-1\<close>, \<open>Contains\<close> is \<open>Index \<ge> 0\<close>, and
  \<open>EqualFold\<close> compares up to letter case (ASCII letters; the strings compared in this
  program are ASCII).
\<close>

fun strings_HasPrefix :: "string \<Rightarrow> string \<Rightarrow> bool" where
  "strings_HasPrefix s [] = True"
| "strings_HasPrefix [] (p # ps) = False"
| "strings_HasPrefix (c # cs) (p # ps) = (c = p \<and> strings_HasPrefix cs ps)"

fun index_from :: "nat \<Rightarrow> string \<Rightarrow> string \<Rightarrow> int" where
  "index_from i [] sub = (if sub = [] then int i else - 1)"
| "index_from i (c # cs) sub =
     (if strings_HasPrefix (c # cs) sub then int i else index_from (Suc i) cs sub)"

definition strings_Index :: "string \<Rightarrow> string \<Rightarrow> int" where
  "strings_Index s sub = index_from 0 s sub"

definition strings_Contains :: "string \<Rightarrow> string \<Rightarrow> bool" where
  "strings_Contains s sub = (strings_Index s sub \<ge> 0)"

definition to_lower :: "char \<Rightarrow> char" where
  "to_lower c =
     (case map_of (zip ''ABCDEFGHIJKLMNOPQRSTUVWXYZ'' ''abcdefghijklmnopqrstuvwxyz'') c of
        Some d \<Rightarrow> d
      | None \<Rightarrow> c)"

definition strings_EqualFold :: "string \<Rightarrow> string \<Rightarrow> bool" where
  "strings_EqualFold s t = (map to_lower s = map to_lower t)"

section \<open>Errors\<close>

text \<open>
  A Go \<open>error\<close> value. \<open>Errorf m\<close> is the value \<open>fmt.Errorf\<close> builds, with its formatted
  message; \<open>ErrUnsupportedFileType\<close> is the SDK's sentinel error; \<open>Foreign m\<close> is an error
  handed back by a collaborator (the network, the reader, the room session).
\<close>

datatype error = Errorf string | ErrUnsupportedFileType | Foreign string

section \<open>Specifier parsing\<close>

definition mimeDelimiter :: string where
  "mimeDelimiter = ''://''"

definition MimeTypeDataByte :: string where
  "MimeTypeDataByte = ''data/byte''"

text \<open>The mime type constants of the WebRTC library.\<close>

definition MimeTypeH264 :: string where
  "MimeTypeH264 = ''video/H264''"

definition MimeTypeVP8 :: string where
  "MimeTypeVP8 = ''video/VP8''"

definition MimeTypeOpus :: string where
  "MimeTypeOpus = ''audio/opus''"

definition isSocketFormat :: "string \<Rightarrow> bool" where
  "isSocketFormat name = strings_Contains name mimeDelimiter"

text \<open>
  \<open>parseSocketFromName\<close> returns the mime key, the socket type and the address, or an
  error. The slices \<open>name[:offset]\<close> and \<open>name[offset+len(mimeDelimiter):]\<close> are in range
  whenever the delimiter was found, so they are \<open>take\<close> and \<open>drop\<close>.
\<close>

definition parseSocketFromName :: "string \<Rightarrow> error + (string \<times> string \<times> string)" where
  "parseSocketFromName name =
     (let offset = strings_Index name mimeDelimiter in
      if offset = - 1 then
        Inl (Errorf (''did not find delimiter '' @ mimeDelimiter @ '' in '' @ name))
      else
        let mimeType = take (nat offset) name in
        if mimeType \<noteq> ''data'' \<and> mimeType \<noteq> ''h264'' \<and> mimeType \<noteq> ''vp8'' \<and> mimeType \<noteq> ''opus''
        then Inl (Errorf (''unsupported mime type: '' @ mimeType))
        else
          let address = drop (nat (offset + int (length mimeDelimiter))) name in
          if length address = 0 then
            Inl (Errorf (''address cannot be empty. input was: '' @ name))
          else if \<not> strings_Contains address '':'' then Inr (mimeType, ''unix'', address)
          else Inr (mimeType, ''tcp'', address))"

text \<open>The mime dispatch at the head of \<open>publishSocket\<close>.\<close>

definition publishSocket_mime :: "string \<Rightarrow> error + string" where
  "publishSocket_mime mimeType =
     (if strings_Contains mimeType ''data'' then Inr MimeTypeDataByte
      else if strings_Contains mimeType ''h264'' then Inr MimeTypeH264
      else if strings_Contains mimeType ''vp8'' then Inr MimeTypeVP8
      else if strings_Contains mimeType ''opus'' then Inr MimeTypeOpus
      else Inl ErrUnsupportedFileType)"

section \<open>Frame pacing\<close>

text \<open>
  The requested rate \<open>fps\<close> is a \<open>float64\<close>. The program only compares it with zero and
  converts it to the integer type \<open>time.Duration\<close>, both exact on finite values, so a rate
  is the real number the float denotes. The conversion discards the fraction
  (truncation toward zero; Go leaves it to the implementation outside the 64-bit range,
  which is not modelled). \<open>time.Second\<close> is a count of nanoseconds. Integer division
  truncates toward zero and panics on a zero divisor.
\<close>

datatype panic = IntegerDivideByZero

definition time_Second :: int where
  "time_Second = 1000000000"

definition time_Millisecond :: int where
  "time_Millisecond = 1000000"

definition time_Duration :: "real \<Rightarrow> int" where
  "time_Duration f = (if 0 \<le> f then \<lfloor>f\<rfloor> else \<lceil>f\<rceil>)"

definition int_quo :: "int \<Rightarrow> int \<Rightarrow> panic + int" where
  "int_quo a b =
     (if b = 0 then Inl IntegerDivideByZero else Inr (sgn a * sgn b * (\<bar>a\<bar> div \<bar>b\<bar>)))"

definition frameDuration :: "real \<Rightarrow> panic + int" where
  "frameDuration fps = int_quo time_Second (time_Duration fps)"

datatype ReaderSampleProviderOption =
    ReaderTrackWithOnWriteComplete
  | ReaderTrackWithFrameDuration int

text \<open>The block \<open>if fps != 0 { ... }\<close> that both publish paths share.\<close>

definition withFrameRate ::
  "real \<Rightarrow> ReaderSampleProviderOption list \<Rightarrow> panic + ReaderSampleProviderOption list" where
  "withFrameRate fps opts =
     (if fps \<noteq> 0 then
        (case frameDuration fps of
           Inl p \<Rightarrow> Inl p
         | Inr d \<Rightarrow> Inr (opts @ [ReaderTrackWithFrameDuration d]))
      else Inr opts)"

text \<open>
  \<open>filepath.Ext\<close>: the suffix beginning at the final dot of the final path element, empty
  if there is none. The scan runs from the end of the path and stops at a separator
  (the slash, as on Linux).
\<close>

fun ext_scan :: "string \<Rightarrow> string \<Rightarrow> string" where
  "ext_scan [] acc = []"
| "ext_scan (c # cs) acc =
     (if c = CHR ''/'' then [] else if c = CHR ''.'' then c # acc else ext_scan cs (c # acc))"

definition filepath_Ext :: "string \<Rightarrow> string" where
  "filepath_Ext path = ext_scan (rev path) []"

text \<open>
  The options that \<open>publishFile\<close> and \<open>publishReader\<close> build before they create the track:
  the completion hook, and the frame duration for a video stream when a rate is set.
  The division may panic.
\<close>

definition publishFile_opts :: "string \<Rightarrow> real \<Rightarrow> panic + ReaderSampleProviderOption list" where
  "publishFile_opts filename fps =
     (let opts = [ReaderTrackWithOnWriteComplete]; ext = filepath_Ext filename in
      if ext = ''.h264'' \<or> ext = ''.ivf'' then withFrameRate fps opts else Inr opts)"

definition publishReader_opts :: "string \<Rightarrow> real \<Rightarrow> panic + ReaderSampleProviderOption list" where
  "publishReader_opts mime fps =
     (let opts = [ReaderTrackWithOnWriteComplete] in
      if strings_EqualFold mime MimeTypeVP8 \<or> strings_EqualFold mime MimeTypeH264
      then withFrameRate fps opts else Inr opts)"

section \<open>The world outside\<close>

text \<open>
  The calls the program makes on its collaborators are logged, in order, with their
  arguments. What a collaborator answers is given by an environment, which may look at
  the log so far.
\<close>

datatype DataPacket_Kind = RELIABLE | LOSSY

datatype effect =
    Dial string string
  | NewLocalFileTrack string "ReaderSampleProviderOption list"
  | NewLocalReaderTrack string "ReaderSampleProviderOption list"
  | PublishTrack string
  | UnpublishTrack string
  | PublishData string DataPacket_Kind
  | Printf string "string list"
  | Println "string list"
  | Sleep int

text \<open>
  A reader is the list of results its \<open>Read\<close> calls give, each a block of bytes with
  \<open>nil\<close>, \<open>io.EOF\<close> or another error, and what \<open>Read\<close> does once the list is used up: a
  closed connection answers \<open>0, io.EOF\<close> to every call, a silent one blocks for ever.
\<close>

datatype read_err = io_EOF | io_Err string

datatype ending = Closed | Silent

record reader =
  reads :: "(string \<times> read_err option) list"
  ending :: ending

record env =
  net_Dial :: "effect list \<Rightarrow> string \<Rightarrow> string \<Rightarrow> error + reader"
  lksdk_NewLocalFileTrack :: "effect list \<Rightarrow> string \<Rightarrow> error option"
  lksdk_NewLocalReaderTrack :: "effect list \<Rightarrow> string \<Rightarrow> error option"
  room_PublishTrack :: "effect list \<Rightarrow> string \<Rightarrow> error + string"
  room_PublishData :: "effect list \<Rightarrow> string \<Rightarrow> error option"

text \<open>
  \<open>bytes.Buffer.ReadFrom\<close> reads from the reader until \<open>io.EOF\<close> and appends what it reads
  to the buffer; it returns any error except \<open>io.EOF\<close>. The result is the buffer, the
  error, and the reads left; \<open>None\<close> when it never returns.
\<close>

fun ReadFrom ::
  "(string \<times> read_err option) list \<Rightarrow> ending \<Rightarrow> string \<Rightarrow>
   (string \<times> error option \<times> (string \<times> read_err option) list) option" where
  "ReadFrom [] Closed buf = Some (buf, None, [])"
| "ReadFrom [] Silent buf = None"
| "ReadFrom ((b, None) # rs) k buf = ReadFrom rs k (buf @ b)"
| "ReadFrom ((b, Some io_EOF) # rs) k buf = Some (buf @ b, None, rs)"
| "ReadFrom ((b, Some (io_Err m)) # rs) k buf = Some (buf @ b, Some (Foreign m), rs)"

section \<open>The data streaming loop\<close>

text \<open>
  One pass through the body of the \<open>for\<close> loop of \<open>publishReader\<close>: the loop returns an
  error, goes round again, or is stuck in a read.
\<close>

datatype pass =
    Return error "effect list"
  | Again "(string \<times> read_err option) list" "effect list"
  | Stuck "effect list"

definition loop_body ::
  "env \<Rightarrow> ending \<Rightarrow> string \<Rightarrow> (string \<times> read_err option) list \<Rightarrow> effect list \<Rightarrow> pass" where
  "loop_body e k mime rs tr =
     (case ReadFrom rs k [] of
        None \<Rightarrow> Stuck tr
      | Some (data, err, rs') \<Rightarrow>
          (case err of
             Some x \<Rightarrow> Return x tr
           | None \<Rightarrow>
               if int (length data) > 0 then
                 if data = ''EXIT'' then
                   Return (Errorf (''finished writing '' @ mime @ '' stream'')) tr
                 else
                   let tr1 = tr @ [Printf (data @ [CHR 0x0A]) []];
                       tr2 = tr1 @ [PublishData data RELIABLE] in
                   (case room_PublishData e tr1 data of
                      Some x \<Rightarrow> Return x tr2
                    | None \<Rightarrow> Again rs' (tr2 @ [Sleep (10 * time_Millisecond)]))
               else Again rs' (tr @ [Sleep (10 * time_Millisecond)])))"

partial_function (option) data_loop ::
  "env \<Rightarrow> ending \<Rightarrow> string \<Rightarrow> (string \<times> read_err option) list \<Rightarrow> effect list \<Rightarrow>
   (error \<times> effect list) option" where
  "data_loop e k mime rs tr =
     (case loop_body e k mime rs tr of
        Return x tr' \<Rightarrow> Some (x, tr')
      | Again rs' tr' \<Rightarrow> data_loop e k mime rs' tr'
      | Stuck tr' \<Rightarrow> None)"

text \<open>
  The state after a number of passes, for runs that do not return, and the log a pass
  leaves.
\<close>

fun passes ::
  "nat \<Rightarrow> env \<Rightarrow> ending \<Rightarrow> string \<Rightarrow> (string \<times> read_err option) list \<Rightarrow> effect list \<Rightarrow> pass" where
  "passes 0 e k mime rs tr = Again rs tr"
| "passes (Suc n) e k mime rs tr =
     (case loop_body e k mime rs tr of
        Again rs' tr' \<Rightarrow> passes n e k mime rs' tr'
      | other \<Rightarrow> other)"

fun log_of :: "pass \<Rightarrow> effect list" where
  "log_of (Return x tr) = tr"
| "log_of (Again rs tr) = tr"
| "log_of (Stuck tr) = tr"

fun is_data :: "effect \<Rightarrow> bool" where
  "is_data (PublishData payload kind) = True"
| "is_data other = False"

definition forwarded :: "effect list \<Rightarrow> effect list" where
  "forwarded tr = filter is_data tr"

section \<open>Publishing\<close>

text \<open>
  How a call of a function with result type \<open>error\<close> ends: it returns \<open>nil\<close>, returns an
  error, or panics. A call that never returns has no outcome (\<open>None\<close>).
\<close>

datatype outcome = Nil | Err error | Panic panic

definition publishReader ::
  "env \<Rightarrow> reader \<Rightarrow> string \<Rightarrow> real \<Rightarrow> effect list \<Rightarrow> (outcome \<times> effect list) option" where
  "publishReader e inp mime fps tr =
     (case publishReader_opts mime fps of
        Inl p \<Rightarrow> Some (Panic p, tr)
      | Inr opts \<Rightarrow>
          if mime \<noteq> MimeTypeDataByte then
            let tr1 = tr @ [NewLocalReaderTrack mime opts] in
            (case lksdk_NewLocalReaderTrack e tr mime of
               Some x \<Rightarrow> Some (Err x, tr1)
             | None \<Rightarrow>
                 (case room_PublishTrack e tr1 [] of
                    Inl x \<Rightarrow> Some (Err x, tr1 @ [PublishTrack []])
                  | Inr sid \<Rightarrow> Some (Nil, tr1 @ [PublishTrack []])))
          else
            (case data_loop e (ending inp) mime (reads inp) tr of
               None \<Rightarrow> None
             | Some (x, tr') \<Rightarrow> Some (Err x, tr')))"

definition publishSocket ::
  "env \<Rightarrow> string \<Rightarrow> string \<Rightarrow> string \<Rightarrow> real \<Rightarrow> effect list \<Rightarrow> (outcome \<times> effect list) option" where
  "publishSocket e mimeType socketType address fps tr =
     (case publishSocket_mime mimeType of
        Inl x \<Rightarrow> Some (Err x, tr)
      | Inr mime \<Rightarrow>
          (case net_Dial e tr socketType address of
             Inl x \<Rightarrow> Some (Err x, tr @ [Dial socketType address])
           | Inr sock \<Rightarrow> publishReader e sock mime fps (tr @ [Dial socketType address])))"

definition publishFile ::
  "env \<Rightarrow> string \<Rightarrow> real \<Rightarrow> effect list \<Rightarrow> (outcome \<times> effect list) option" where
  "publishFile e filename fps tr =
     (case publishFile_opts filename fps of
        Inl p \<Rightarrow> Some (Panic p, tr)
      | Inr opts \<Rightarrow>
          let tr1 = tr @ [NewLocalFileTrack filename opts] in
          (case lksdk_NewLocalFileTrack e tr filename of
             Some x \<Rightarrow> Some (Err x, tr1)
           | None \<Rightarrow>
               (case room_PublishTrack e tr1 filename of
                  Inl x \<Rightarrow> Some (Err x, tr1 @ [PublishTrack filename])
                | Inr sid \<Rightarrow> Some (Nil, tr1 @ [PublishTrack filename]))))"

definition handlePublish ::
  "env \<Rightarrow> string \<Rightarrow> real \<Rightarrow> effect list \<Rightarrow> (outcome \<times> effect list) option" where
  "handlePublish e name fps tr =
     (if isSocketFormat name then
        (case parseSocketFromName name of
           Inl x \<Rightarrow> Some (Err x, tr)
         | Inr (mimeType, socketType, address) \<Rightarrow>
             publishSocket e mimeType socketType address fps tr)
      else publishFile e name fps tr)"

text \<open>
  The loop of \<open>joinRoom\<close> over the values of the \<open>publish\<close> flag: it returns at the first
  call of \<open>handlePublish\<close> that gives an error.
\<close>

fun joinRoom_publish ::
  "env \<Rightarrow> string list \<Rightarrow> real \<Rightarrow> effect list \<Rightarrow> (outcome \<times> effect list) option" where
  "joinRoom_publish e [] fps tr = Some (Nil, tr)"
| "joinRoom_publish e (pub # pubs) fps tr =
     (case handlePublish e pub fps tr of
        None \<Rightarrow> None
      | Some (Nil, tr') \<Rightarrow> joinRoom_publish e pubs fps tr'
      | Some (r, tr') \<Rightarrow> Some (r, tr'))"

section \<open>The completion hook\<close>

text \<open>
  The closures given to \<open>ReaderTrackWithOnWriteComplete\<close> share the variable \<open>pub\<close> with
  the function that publishes: \<open>nil\<close> until \<open>PublishTrack\<close> has returned and its result
  has been assigned. A publication handle is known by its SID.
\<close>

definition onWriteComplete_file :: "string \<Rightarrow> string option \<Rightarrow> effect list \<Rightarrow> effect list" where
  "onWriteComplete_file filename pub tr =
     (let tr1 = tr @ [Println [''finished writing file'', filename]] in
      case pub of None \<Rightarrow> tr1 | Some sid \<Rightarrow> tr1 @ [UnpublishTrack sid])"

definition onWriteComplete_reader :: "string \<Rightarrow> string option \<Rightarrow> effect list \<Rightarrow> effect list" where
  "onWriteComplete_reader mime pub tr =
     (let tr1 = tr @ [Printf (''finished writing %s stream'' @ [CHR 0x0A]) [mime]] in
      case pub of None \<Rightarrow> tr1 | Some sid \<Rightarrow> tr1 @ [UnpublishTrack sid])"

text \<open>
  The hook runs when the track's source is exhausted, which the SDK decides on its own
  thread: before or after the assignment to \<open>pub\<close>. A schedule lists the two kinds of
  moment in the order in which they take place.
\<close>

datatype moment = WriteComplete | PublishReturned "error + string"

fun moment_step ::
  "(string option \<Rightarrow> effect list \<Rightarrow> effect list) \<Rightarrow> string option \<times> effect list \<Rightarrow> moment \<Rightarrow>
   string option \<times> effect list" where
  "moment_step hook (pub, tr) WriteComplete = (pub, hook pub tr)"
| "moment_step hook (pub, tr) (PublishReturned (Inl x)) = (None, tr)"
| "moment_step hook (pub, tr) (PublishReturned (Inr sid)) = (Some sid, tr)"

definition run_schedule ::
  "(string option \<Rightarrow> effect list \<Rightarrow> effect list) \<Rightarrow> moment list \<Rightarrow> string option \<times> effect list" where
  "run_schedule hook ms = foldl (moment_step hook) (None, []) ms"

fun is_unpublish :: "effect \<Rightarrow> bool" where
  "is_unpublish (UnpublishTrack sid) = True"
| "is_unpublish other = False"

definition unpublish_attempts :: "effect list \<Rightarrow> effect list" where
  "unpublish_attempts tr = filter is_unpublish tr"

section \<open>What the specification asks of frame pacing\<close>

text \<open>
  The specification's words for the frame duration are "\<open>1/rate\<close> converted to the
  implementation's time unit": \<open>d\<close> nanoseconds are the period of \<open>rate\<close> when they lie
  within one nanosecond of \<open>1/rate\<close> seconds, whichever way the conversion rounds.
\<close>

definition spec_period :: "int \<Rightarrow> real \<Rightarrow> bool" where
  "spec_period d rate = (\<bar>real_of_int d - real_of_int time_Second / rate\<bar> < 1)"

section \<open>Reading the log\<close>

text \<open>The options a track was created with, and whether a frame duration is among them.\<close>

fun track_opts :: "effect \<Rightarrow> ReaderSampleProviderOption list" where
  "track_opts (NewLocalFileTrack filename opts) = opts"
| "track_opts (NewLocalReaderTrack mime opts) = opts"
| "track_opts other = []"

fun is_frame_duration :: "ReaderSampleProviderOption \<Rightarrow> bool" where
  "is_frame_duration (ReaderTrackWithFrameDuration d) = True"
| "is_frame_duration other = False"

definition sets_frame_duration :: "effect \<Rightarrow> bool" where
  "sets_frame_duration ef = list_ex is_frame_duration (track_opts ef)"

text \<open>An environment in which every call on a collaborator succeeds.\<close>

definition willing :: env where
  "willing =
     \<lparr>net_Dial = (\<lambda>tr network address. Inr \<lparr>reads = [], ending = Closed\<rparr>),
      lksdk_NewLocalFileTrack = (\<lambda>tr filename. None),
      lksdk_NewLocalReaderTrack = (\<lambda>tr mime. None),
      room_PublishTrack = (\<lambda>tr name. Inr ''TR_1''),
      room_PublishData = (\<lambda>tr payload. None)\<rparr>"

text \<open>The same, with a given reader behind every socket.\<close>

definition serving :: "(string \<times> read_err option) list \<Rightarrow> ending \<Rightarrow> env" where
  "serving rs k = willing\<lparr>net_Dial := (\<lambda>tr network address. Inr \<lparr>reads = rs, ending = k\<rparr>)\<rparr>"

text \<open>An environment in which the dial to one address is refused and all else succeeds.\<close>

definition refusing :: "string \<Rightarrow> env" where
  "refusing bad =
     willing\<lparr>net_Dial := (\<lambda>tr network address.
        if address = bad then Inl (Foreign ''connection refused'')
        else Inr \<lparr>reads = [], ending = Closed\<rparr>)\<rparr>"

section \<open>Facts about the string functions\<close>

lemma HasPrefix_iff: "strings_HasPrefix s p \<longleftrightarrow> (\<exists>r. s = p @ r)"
  by (induction s p rule: strings_HasPrefix.induct) auto

lemma index_from_range: "index_from i s sub = - 1 \<or> int i \<le> index_from i s sub"
  by (induction i s sub rule: index_from.induct) auto

lemma index_from_found:
  "index_from i s sub \<noteq> - 1 \<Longrightarrow>
   \<exists>k \<le> length s. index_from i s sub = int (i + k) \<and> strings_HasPrefix (drop k s) sub \<and>
     (\<forall>j < k. \<not> strings_HasPrefix (drop j s) sub)"
proof (induction i s sub rule: index_from.induct)
  case (1 i sub)
  then show ?case by (auto split: if_splits)
next
  case (2 i c cs sub)
  show ?case
  proof (cases "strings_HasPrefix (c # cs) sub")
    case True
    then show ?thesis by (intro exI [of _ 0]) simp
  next
    case False
    with 2 obtain k where k: "k \<le> length cs" "index_from (Suc i) cs sub = int (Suc i + k)"
      "strings_HasPrefix (drop k cs) sub" "\<forall>j < k. \<not> strings_HasPrefix (drop j cs) sub"
      by auto
    have "\<forall>j < Suc k. \<not> strings_HasPrefix (drop j (c # cs)) sub"
    proof (intro allI impI)
      fix j assume "j < Suc k"
      then show "\<not> strings_HasPrefix (drop j (c # cs)) sub"
        using False k(4) by (cases j) auto
    qed
    with False k show ?thesis by (intro exI [of _ "Suc k"]) simp
  qed
qed

lemma index_from_first:
  "\<forall>j < length l. \<not> strings_HasPrefix (drop j (l @ sub @ r)) sub \<Longrightarrow>
   index_from i (l @ sub @ r) sub = int (i + length l)"
proof (induction l arbitrary: i)
  case Nil
  have "strings_HasPrefix (sub @ r) sub" by (simp add: HasPrefix_iff)
  then show ?case by (cases "sub @ r") auto
next
  case (Cons c l)
  from Cons.prems have "\<not> strings_HasPrefix ((c # l) @ sub @ r) sub"
    by (metis drop0 length_greater_0_conv list.distinct(1))
  moreover have "\<forall>j < length l. \<not> strings_HasPrefix (drop j (l @ sub @ r)) sub"
  proof (intro allI impI)
    fix j assume "j < length l"
    then have "Suc j < length (c # l)" by simp
    with Cons.prems have "\<not> strings_HasPrefix (drop (Suc j) ((c # l) @ sub @ r)) sub"
      by blast
    then show "\<not> strings_HasPrefix (drop j (l @ sub @ r)) sub" by simp
  qed
  ultimately show ?case using Cons.IH [of "Suc i"] by simp
qed

lemma Index_first:
  "\<forall>j < length l. \<not> strings_HasPrefix (drop j (l @ sub @ r)) sub \<Longrightarrow>
   strings_Index (l @ sub @ r) sub = int (length l)"
  using index_from_first [of l sub r 0] by (simp add: strings_Index_def)

lemma Index_found:
  assumes "strings_Index s sub \<noteq> - 1"
  shows "\<exists>k. strings_Index s sub = int k \<and> s = take k s @ sub @ drop (k + length sub) s"
proof -
  from index_from_found [of 0 s sub] assms obtain k where
    k: "strings_Index s sub = int k" "strings_HasPrefix (drop k s) sub"
    by (auto simp: strings_Index_def)
  from k(2) obtain r where r: "drop k s = sub @ r" by (auto simp: HasPrefix_iff)
  then have "drop (k + length sub) s = r"
    by (metis add.commute append_eq_conv_conj drop_drop)
  with r have "s = take k s @ sub @ drop (k + length sub) s"
    by (metis append_take_drop_id)
  with k(1) show ?thesis by blast
qed

lemma Contains_char: "strings_Contains s [c] \<longleftrightarrow> c \<in> set s"
proof -
  have "\<And>i. (0 \<le> index_from i s [c]) \<longleftrightarrow> c \<in> set s"
  proof (induction s)
    case Nil
    show ?case by simp
  next
    case (Cons a s)
    show ?case using Cons.IH [of "Suc i"] by auto
  qed
  then show ?thesis by (simp add: strings_Contains_def strings_Index_def)
qed

lemma index_from_none:
  "index_from i s sub = - 1 \<longleftrightarrow> (\<forall>j \<le> length s. \<not> strings_HasPrefix (drop j s) sub)"
proof (induction i s sub rule: index_from.induct)
  case (1 i sub)
  show ?case by (cases sub) auto
next
  case (2 i c cs sub)
  show ?case
  proof (cases "strings_HasPrefix (c # cs) sub")
    case True
    then have "\<exists>j \<le> length (c # cs). strings_HasPrefix (drop j (c # cs)) sub"
      by (intro exI [of _ 0]) simp
    with True show ?thesis by auto
  next
    case False
    have "(\<forall>j \<le> length (c # cs). \<not> strings_HasPrefix (drop j (c # cs)) sub) \<longleftrightarrow>
          (\<forall>j \<le> length cs. \<not> strings_HasPrefix (drop j cs) sub)"
    proof
      assume a: "\<forall>j \<le> length (c # cs). \<not> strings_HasPrefix (drop j (c # cs)) sub"
      show "\<forall>j \<le> length cs. \<not> strings_HasPrefix (drop j cs) sub"
      proof (intro allI impI)
        fix j assume "j \<le> length cs"
        with a have "\<not> strings_HasPrefix (drop (Suc j) (c # cs)) sub" by auto
        then show "\<not> strings_HasPrefix (drop j cs) sub" by simp
      qed
    next
      assume a: "\<forall>j \<le> length cs. \<not> strings_HasPrefix (drop j cs) sub"
      show "\<forall>j \<le> length (c # cs). \<not> strings_HasPrefix (drop j (c # cs)) sub"
      proof (intro allI impI)
        fix j assume "j \<le> length (c # cs)"
        then show "\<not> strings_HasPrefix (drop j (c # cs)) sub"
          using False a by (cases j) auto
      qed
    qed
    with False 2 show ?thesis by simp
  qed
qed

lemma Contains_iff:
  "strings_Contains s sub \<longleftrightarrow> (\<exists>j \<le> length s. strings_HasPrefix (drop j s) sub)"
  using index_from_none [of 0 s sub] index_from_range [of 0 s sub]
  by (auto simp: strings_Contains_def strings_Index_def)

lemma delimiter_first:
  assumes "\<not> strings_Contains l ''://''"
  shows "\<forall>j < length l. \<not> strings_HasPrefix (drop j (l @ ''://'' @ r)) ''://''"
proof (intro allI impI)
  fix j assume j: "j < length l"
  define t where "t = drop j l"
  from assms j have no: "\<not> strings_HasPrefix t ''://''"
    unfolding t_def Contains_iff by auto
  from j have ne: "t \<noteq> []" by (simp add: t_def)
  have "\<not> strings_HasPrefix (t @ ''://'' @ r) ''://''"
  proof (cases t)
    case Nil
    with ne show ?thesis by simp
  next
    case (Cons a u)
    note t1 = this
    show ?thesis
    proof (cases u)
      case Nil
      with t1 show ?thesis by simp
    next
      case (Cons b v)
      note t2 = this
      show ?thesis
      proof (cases v)
        case Nil
        with t1 t2 show ?thesis by simp
      next
        case (Cons c w)
        with t1 t2 no show ?thesis by simp
      qed
    qed
  qed
  with j show "\<not> strings_HasPrefix (drop j (l @ ''://'' @ r)) ''://''"
    by (simp add: t_def)
qed

lemma Index_delimiter:
  "\<not> strings_Contains l ''://'' \<Longrightarrow> strings_Index (l @ ''://'' @ r) ''://'' = int (length l)"
  by (rule Index_first) (rule delimiter_first)

lemma split_at_delimiter:
  assumes "strings_Contains name ''://''"
  shows "\<exists>l r. name = l @ ''://'' @ r \<and> \<not> strings_Contains l ''://''"
proof -
  from assms index_from_range [of 0 name "''://''"] have "index_from 0 name ''://'' \<noteq> - 1"
    by (auto simp: strings_Contains_def strings_Index_def)
  from index_from_found [OF this] obtain k where
    k: "k \<le> length name" "strings_HasPrefix (drop k name) ''://''"
       "\<forall>j < k. \<not> strings_HasPrefix (drop j name) ''://''"
    by auto
  from k(2) obtain r where r: "drop k name = ''://'' @ r" by (auto simp: HasPrefix_iff)
  have name: "name = take k name @ ''://'' @ r"
    using r by (metis append_take_drop_id)
  have "\<not> strings_Contains (take k name) ''://''"
  proof
    assume "strings_Contains (take k name) ''://''"
    then obtain j where j: "j \<le> length (take k name)"
      "strings_HasPrefix (drop j (take k name)) ''://''"
      unfolding Contains_iff by blast
    from j(2) obtain q where q: "drop j (take k name) = ''://'' @ q" by (auto simp: HasPrefix_iff)
    then have "j < k" using j(1) by (cases "j = k") auto
    moreover have "drop j name = drop j (take k name) @ drop k name"
      using drop_append [of j "take k name" "drop k name"] \<open>j < k\<close> k(1) by simp
    ultimately show False using k(3) q by (auto simp: HasPrefix_iff)
  qed
  with name show ?thesis by blast
qed

section \<open>Facts about the parser\<close>

lemma parse_Inr:
  assumes "parseSocketFromName name = Inr (m, st, a)"
  shows "name = m @ ''://'' @ a \<and> m \<in> {''data'', ''h264'', ''vp8'', ''opus''} \<and> a \<noteq> [] \<and>
         st = (if CHR '':'' \<in> set a then ''tcp'' else ''unix'')"
proof -
  from assms have found: "strings_Index name ''://'' \<noteq> - 1"
    by (auto simp: parseSocketFromName_def mimeDelimiter_def Let_def split: if_splits)
  from Index_found [OF this] obtain k where
    k: "strings_Index name ''://'' = int k"
       "name = take k name @ ''://'' @ drop (k + length ''://'') name"
    by blast
  have three: "length ''://'' = 3" by simp
  from assms k(1) have "m = take k name" "a = drop (k + 3) name" "a \<noteq> []"
    "m \<in> {''data'', ''h264'', ''vp8'', ''opus''}"
    "st = (if CHR '':'' \<in> set a then ''tcp'' else ''unix'')"
    by (auto simp: parseSocketFromName_def mimeDelimiter_def Let_def Contains_char nat_add_distrib
        split: if_splits)
  with k(2) show ?thesis unfolding three by metis
qed

lemma Index_key:
  "k \<in> {''data'', ''h264'', ''vp8'', ''opus''} \<Longrightarrow> strings_Index (k @ ''://'' @ a) ''://'' = int (length k)"
  by (auto simp: strings_Index_def)

lemma parse_key:
  assumes "k \<in> {''data'', ''h264'', ''vp8'', ''opus''}" "a \<noteq> []"
  shows "parseSocketFromName (k @ ''://'' @ a) =
         Inr (k, if CHR '':'' \<in> set a then ''tcp'' else ''unix'', a)"
proof -
  have "take (length k) (k @ ''://'' @ a) = k" by simp
  moreover have "drop (length k + 3) (k @ ''://'' @ a) = a" by simp
  ultimately show ?thesis
    using assms Index_key [OF assms(1), of a] unfolding parseSocketFromName_def mimeDelimiter_def Let_def 
    by (simp add: Contains_char nat_add_distrib del: append.simps append_Cons)
qed

section \<open>Claims about the parser and the dispatch\<close>

lemma parse_at_split:
  assumes "name = l @ ''://'' @ r" and "\<not> strings_Contains l ''://''"
  shows "(l \<notin> {''data'', ''h264'', ''vp8'', ''opus''} \<longrightarrow>
            parseSocketFromName name = Inl (Errorf (''unsupported mime type: '' @ l))) \<and>
         (l \<in> {''data'', ''h264'', ''vp8'', ''opus''} \<and> r = [] \<longrightarrow>
            parseSocketFromName name =
              Inl (Errorf (''address cannot be empty. input was: '' @ name)))"
proof -
  have idx: "strings_Index name ''://'' = int (length l)"
    unfolding assms(1) by (rule Index_delimiter [OF assms(2)])
  have tk: "take (length l) name = l" using assms(1) by simp
  have dr: "drop (length l + 3) name = r" using assms(1) by simp
  show ?thesis
    unfolding parseSocketFromName_def mimeDelimiter_def Let_def idx
    by (simp add: tk dr nat_add_distrib)
qed

text \<open>
  Claim C7, as the code has it. A specifier that contains the delimiter splits into
  \<open>l\<close>, the delimiter and \<open>r\<close>, with no delimiter inside \<open>l\<close>: \<open>l\<close> is the text left of the
  first delimiter, \<open>r\<close> the text right of it. At every such split: if \<open>l\<close> is none of
  data, h264, vp8, opus, parsing fails with the unsupported-mime-type error; if \<open>l\<close> is
  one of the four and \<open>r\<close> is empty, parsing fails with the empty-address error. The
  mime key is checked before the address, so an empty address is reported only under a
  valid key.
\<close>

theorem parse_rejects:
  assumes "isSocketFormat name"
  shows "(\<exists>l r. name = l @ ''://'' @ r \<and> \<not> strings_Contains l ''://'') \<and>
         (\<forall>l r. name = l @ ''://'' @ r \<and> \<not> strings_Contains l ''://'' \<longrightarrow>
            (l \<notin> {''data'', ''h264'', ''vp8'', ''opus''} \<longrightarrow>
               parseSocketFromName name = Inl (Errorf (''unsupported mime type: '' @ l))) \<and>
            (l \<in> {''data'', ''h264'', ''vp8'', ''opus''} \<and> r = [] \<longrightarrow>
               parseSocketFromName name =
                 Inl (Errorf (''address cannot be empty. input was: '' @ name))))"
proof
  from assms show "\<exists>l r. name = l @ ''://'' @ r \<and> \<not> strings_Contains l ''://''"
    unfolding isSocketFormat_def mimeDelimiter_def by (rule split_at_delimiter)
next
  show "\<forall>l r. name = l @ ''://'' @ r \<and> \<not> strings_Contains l ''://'' \<longrightarrow>
            (l \<notin> {''data'', ''h264'', ''vp8'', ''opus''} \<longrightarrow>
               parseSocketFromName name = Inl (Errorf (''unsupported mime type: '' @ l))) \<and>
            (l \<in> {''data'', ''h264'', ''vp8'', ''opus''} \<and> r = [] \<longrightarrow>
               parseSocketFromName name =
                 Inl (Errorf (''address cannot be empty. input was: '' @ name)))"
    using parse_at_split by blast
qed

text \<open>
  The two cases of C7 at \<open>foo://bar\<close> and \<open>h264://\<close>.
\<close>

theorem parse_rejects_witness:
  "isSocketFormat ''foo://bar'' \<and> isSocketFormat ''h264://'' \<and>
   parseSocketFromName ''foo://bar'' = Inl (Errorf ''unsupported mime type: foo'') \<and>
   parseSocketFromName ''h264://'' = Inl (Errorf ''address cannot be empty. input was: h264://'')"
proof -
  have s1: "isSocketFormat ''foo://bar''"
    by (simp add: isSocketFormat_def strings_Contains_def strings_Index_def mimeDelimiter_def)
  have s2: "isSocketFormat ''h264://''"
    by (simp add: isSocketFormat_def strings_Contains_def strings_Index_def mimeDelimiter_def)
  have a: "''foo://bar'' = ''foo'' @ ''://'' @ ''bar'' \<and> \<not> strings_Contains ''foo'' ''://''"
    by (simp add: strings_Contains_def strings_Index_def)
  have c: "''h264://'' = ''h264'' @ ''://'' @ [] \<and> \<not> strings_Contains ''h264'' ''://''"
    by (simp add: strings_Contains_def strings_Index_def)
  from parse_rejects [OF s1] a
  have "parseSocketFromName ''foo://bar'' = Inl (Errorf (''unsupported mime type: '' @ ''foo''))"
    by blast
  moreover from parse_rejects [OF s2] c
  have "parseSocketFromName ''h264://'' =
      Inl (Errorf (''address cannot be empty. input was: '' @ ''h264://''))"
    by blast
  ultimately show ?thesis using s1 s2 by simp
qed

text \<open>
  C7 as stated asks for the empty-address error whenever the text right of the delimiter
  is empty. In \<open>foo://\<close> it is empty, and the error is the one for the mime type.
\<close>

theorem empty_address_counterexample:
  "strings_Contains ''foo://'' ''://'' \<and>
   strings_Index ''foo://'' ''://'' = 3 \<and> drop (3 + 3) ''foo://'' = [] \<and>
   parseSocketFromName ''foo://'' = Inl (Errorf ''unsupported mime type: foo'') \<and>
   parseSocketFromName ''foo://'' \<noteq> Inl (Errorf ''address cannot be empty. input was: foo://'')"
  by (simp add: parseSocketFromName_def strings_Contains_def strings_Index_def mimeDelimiter_def)

text \<open>
  Claim C8. Whenever \<open>parseSocketFromName\<close> succeeds, the socket type is \<open>tcp\<close> exactly
  when the address contains a colon and \<open>unix\<close> exactly when it does not. Under each of
  the four keys the address \<open>127.0.0.1:1234\<close> gives \<open>tcp\<close> and \<open>/tmp/x.sock\<close> gives
  \<open>unix\<close>.
\<close>

theorem transport_rule:
  assumes "parseSocketFromName name = Inr (mimeType, socketType, address)"
  shows "(socketType = ''tcp'' \<longleftrightarrow> CHR '':'' \<in> set address) \<and>
         (socketType = ''unix'' \<longleftrightarrow> CHR '':'' \<notin> set address) \<and>
         (\<forall>k \<in> {''data'', ''h264'', ''vp8'', ''opus''}.
            parseSocketFromName (k @ ''://'' @ ''127.0.0.1:1234'') = Inr (k, ''tcp'', ''127.0.0.1:1234'') \<and>
            parseSocketFromName (k @ ''://'' @ ''/tmp/x.sock'') = Inr (k, ''unix'', ''/tmp/x.sock''))"
proof -
  from parse_Inr [OF assms] have "socketType = (if CHR '':'' \<in> set address then ''tcp'' else ''unix'')"
    by simp
  then have "(socketType = ''tcp'' \<longleftrightarrow> CHR '':'' \<in> set address) \<and>
         (socketType = ''unix'' \<longleftrightarrow> CHR '':'' \<notin> set address)" by auto
  moreover have "\<forall>k \<in> {''data'', ''h264'', ''vp8'', ''opus''}.
            parseSocketFromName (k @ ''://'' @ ''127.0.0.1:1234'') = Inr (k, ''tcp'', ''127.0.0.1:1234'') \<and>
            parseSocketFromName (k @ ''://'' @ ''/tmp/x.sock'') = Inr (k, ''unix'', ''/tmp/x.sock'')"
  proof
    fix k :: string assume k: "k \<in> {''data'', ''h264'', ''vp8'', ''opus''}"
    show "parseSocketFromName (k @ ''://'' @ ''127.0.0.1:1234'') = Inr (k, ''tcp'', ''127.0.0.1:1234'') \<and>
            parseSocketFromName (k @ ''://'' @ ''/tmp/x.sock'') = Inr (k, ''unix'', ''/tmp/x.sock'')"
      using parse_key [OF k, of "''127.0.0.1:1234''"] parse_key [OF k, of "''/tmp/x.sock''"]
      by simp
  qed
  ultimately show ?thesis by blast
qed

text \<open>
  C8 at \<open>h264://127.0.0.1:1234\<close> and \<open>opus:///tmp/x.sock\<close>.
\<close>

theorem transport_rule_witness:
  "parseSocketFromName ''h264://127.0.0.1:1234'' = Inr (''h264'', ''tcp'', ''127.0.0.1:1234'') \<and>
   CHR '':'' \<in> set ''127.0.0.1:1234'' \<and>
   parseSocketFromName ''opus:///tmp/x.sock'' = Inr (''opus'', ''unix'', ''/tmp/x.sock'') \<and>
   CHR '':'' \<notin> set ''/tmp/x.sock''"
proof -
  have a: "parseSocketFromName ''h264://127.0.0.1:1234'' = Inr (''h264'', ''tcp'', ''127.0.0.1:1234'')"
    by (simp add: parseSocketFromName_def strings_Contains_def strings_Index_def mimeDelimiter_def)
  have b: "parseSocketFromName ''opus:///tmp/x.sock'' = Inr (''opus'', ''unix'', ''/tmp/x.sock'')"
    by (simp add: parseSocketFromName_def strings_Contains_def strings_Index_def mimeDelimiter_def)
  show ?thesis using a b transport_rule [OF a] transport_rule [OF b] by simp
qed

text \<open>
  Claim C10. A mime key that \<open>parseSocketFromName\<close> returns is one of data, h264, vp8,
  opus; the dispatch of \<open>publishSocket\<close> maps it to \<open>data/byte\<close>, H264, VP8 and Opus in
  that order, and never takes the default branch with \<open>ErrUnsupportedFileType\<close>.
\<close>

theorem dispatch_total:
  assumes "parseSocketFromName name = Inr (mimeType, socketType, address)"
  shows "mimeType \<in> {''data'', ''h264'', ''vp8'', ''opus''} \<and>
         publishSocket_mime mimeType =
           Inr (if mimeType = ''data'' then MimeTypeDataByte
                else if mimeType = ''h264'' then MimeTypeH264
                else if mimeType = ''vp8'' then MimeTypeVP8
                else MimeTypeOpus) \<and>
         publishSocket_mime mimeType \<noteq> Inl ErrUnsupportedFileType"
proof -
  from parse_Inr [OF assms] have key: "mimeType \<in> {''data'', ''h264'', ''vp8'', ''opus''}"
    by simp
  have "publishSocket_mime ''data'' = Inr MimeTypeDataByte"
    by (simp add: publishSocket_mime_def strings_Contains_def strings_Index_def)
  moreover have "publishSocket_mime ''h264'' = Inr MimeTypeH264"
    by (simp add: publishSocket_mime_def strings_Contains_def strings_Index_def)
  moreover have "publishSocket_mime ''vp8'' = Inr MimeTypeVP8"
    by (simp add: publishSocket_mime_def strings_Contains_def strings_Index_def)
  moreover have "publishSocket_mime ''opus'' = Inr MimeTypeOpus"
    by (simp add: publishSocket_mime_def strings_Contains_def strings_Index_def)
  ultimately show ?thesis using key by fastforce
qed

text \<open>
  C10 at \<open>vp8:///tmp/x.sock\<close>.
\<close>

theorem dispatch_total_witness:
  "publishSocket_mime ''vp8'' = Inr ''video/VP8'' \<and> publishSocket_mime ''vp8'' \<noteq> Inl ErrUnsupportedFileType"
proof -
  have a: "parseSocketFromName ''vp8:///tmp/x.sock'' = Inr (''vp8'', ''unix'', ''/tmp/x.sock'')"
    by (simp add: parseSocketFromName_def strings_Contains_def strings_Index_def mimeDelimiter_def)
  show ?thesis using dispatch_total [OF a] by (simp add: MimeTypeVP8_def)
qed

section \<open>Claims about frame pacing\<close>

lemma time_Duration_of_int: "time_Duration (real_of_int z) = z"
  by (simp add: time_Duration_def)

lemma time_Duration_nonzero: "1 \<le> \<bar>fps\<bar> \<Longrightarrow> time_Duration fps \<noteq> 0"
  by (auto simp: time_Duration_def floor_eq_iff ceiling_eq_iff)

lemma period_whole:
  assumes "z \<noteq> 0"
  shows "\<exists>d. frameDuration (real_of_int z) = Inr d \<and> spec_period d (real_of_int z)"
proof (cases "0 < z")
  case True
  define x where "x = real_of_int time_Second / real_of_int z"
  have d: "frameDuration (real_of_int z) = Inr (time_Second div z)"
    using True by (simp add: frameDuration_def int_quo_def time_Duration_of_int time_Second_def)
  have "time_Second div z = \<lfloor>x\<rfloor>" by (simp add: x_def floor_divide_of_int_eq)
  moreover have "\<bar>real_of_int \<lfloor>x\<rfloor> - x\<bar> < 1" by linarith
  ultimately have "spec_period (time_Second div z) (real_of_int z)"
    by (simp add: spec_period_def x_def)
  with d show ?thesis by blast
next
  case False
  with assms have neg: "z < 0" by simp
  define x where "x = real_of_int time_Second / real_of_int (- z)"
  have d: "frameDuration (real_of_int z) = Inr (- (time_Second div (- z)))"
    using neg by (simp add: frameDuration_def int_quo_def time_Duration_of_int time_Second_def)
  have fl: "time_Second div (- z) = \<lfloor>x\<rfloor>" unfolding x_def by (simp only: floor_divide_of_int_eq)
  have "real_of_int time_Second / real_of_int z = - x" by (simp add: x_def)
  moreover have "\<bar>- real_of_int \<lfloor>x\<rfloor> - (- x)\<bar> < 1" by linarith
  ultimately have "spec_period (- (time_Second div (- z))) (real_of_int z)"
    unfolding spec_period_def fl by simp
  with d show ?thesis by blast
qed

text \<open>
  What holds of the pacing at every rate: with rate 0 no frame duration is added; a
  whole rate other than 0 gives \<open>1/rate\<close> seconds in nanoseconds; a rate of magnitude at
  least 1 gives what its integer part gives, the fraction being discarded by the
  conversion; rate 25 gives exactly 40 ms. (Rates are taken within the 64-bit range of
  the conversion.)
\<close>

lemma frame_pacing_whole_rates:
  "withFrameRate 0 opts = Inr opts \<and>
   (z \<noteq> 0 \<and> \<bar>z\<bar> < 2 ^ 63 \<longrightarrow>
      (\<exists>d. withFrameRate (real_of_int z) opts = Inr (opts @ [ReaderTrackWithFrameDuration d]) \<and>
           spec_period d (real_of_int z))) \<and>
   (1 \<le> \<bar>fps\<bar> \<and> \<bar>fps\<bar> < 2 ^ 63 \<longrightarrow>
      withFrameRate fps opts = withFrameRate (real_of_int (time_Duration fps)) opts) \<and>
   withFrameRate 25 opts = Inr (opts @ [ReaderTrackWithFrameDuration (40 * time_Millisecond)])"
proof (intro conjI impI)
  show "withFrameRate 0 opts = Inr opts" by (simp add: withFrameRate_def)
next
  assume "z \<noteq> 0 \<and> \<bar>z\<bar> < 2 ^ 63"
  then have z: "z \<noteq> 0" by simp
  from period_whole [OF z] obtain d where
    "frameDuration (real_of_int z) = Inr d" "spec_period d (real_of_int z)" by blast
  with z show "\<exists>d. withFrameRate (real_of_int z) opts = Inr (opts @ [ReaderTrackWithFrameDuration d]) \<and>
           spec_period d (real_of_int z)"
    by (simp add: withFrameRate_def)
next
  assume "1 \<le> \<bar>fps\<bar> \<and> \<bar>fps\<bar> < 2 ^ 63"
  then have a: "1 \<le> \<bar>fps\<bar>" by simp
  then have "fps \<noteq> 0" by auto
  moreover note time_Duration_nonzero [OF a]
  ultimately show "withFrameRate fps opts = withFrameRate (real_of_int (time_Duration fps)) opts"
    by (simp add: withFrameRate_def frameDuration_def time_Duration_of_int)
next
  show "withFrameRate 25 opts = Inr (opts @ [ReaderTrackWithFrameDuration (40 * time_Millisecond)])"
    by (simp add: withFrameRate_def frameDuration_def int_quo_def time_Duration_def
        time_Second_def time_Millisecond_def)
qed

text \<open>
  Claim C5, evaluated. The claim asks for \<open>1/rate\<close> at every rate other than 0. The rate
  is converted to an integer before the division: at 23.98 frames per second the code
  gives the duration of 23, at 2.5 it gives 500 ms where \<open>1/rate\<close> is 400 ms, and at 0.5
  the division is by zero and panics.
\<close>

theorem frame_pacing_fractional:
  "withFrameRate (2398 / 100) [] = Inr [ReaderTrackWithFrameDuration 43478260] \<and>
   \<not> spec_period 43478260 (2398 / 100) \<and>
   withFrameRate (5 / 2) [] = Inr [ReaderTrackWithFrameDuration 500000000] \<and>
   \<not> spec_period 500000000 (5 / 2) \<and>
   withFrameRate (1 / 2) [] = Inl IntegerDivideByZero"
  by (simp add: withFrameRate_def frameDuration_def int_quo_def time_Duration_def
      time_Second_def spec_period_def)

section \<open>Claims about where a frame duration is set\<close>

lemma withFrameRate_gate:
  "withFrameRate fps [ReaderTrackWithOnWriteComplete] = Inr opts \<Longrightarrow>
   list_ex is_frame_duration opts \<Longrightarrow> fps \<noteq> 0"
  by (auto simp: withFrameRate_def split: if_splits sum.splits)

lemma publishReader_opts_gate:
  assumes "publishReader_opts mime fps = Inr opts" "list_ex is_frame_duration opts"
  shows "fps \<noteq> 0 \<and> (strings_EqualFold mime MimeTypeVP8 \<or> strings_EqualFold mime MimeTypeH264)"
proof (cases "strings_EqualFold mime MimeTypeVP8 \<or> strings_EqualFold mime MimeTypeH264")
  case True
  with assms(1) have "withFrameRate fps [ReaderTrackWithOnWriteComplete] = Inr opts"
    by (simp add: publishReader_opts_def)
  from withFrameRate_gate [OF this assms(2)] True show ?thesis by simp
next
  case False
  with assms show ?thesis by (auto simp: publishReader_opts_def)
qed

lemma publishFile_opts_gate:
  assumes "publishFile_opts filename fps = Inr opts" "list_ex is_frame_duration opts"
  shows "fps \<noteq> 0 \<and> (filepath_Ext filename = ''.h264'' \<or> filepath_Ext filename = ''.ivf'')"
proof (cases "filepath_Ext filename = ''.h264'' \<or> filepath_Ext filename = ''.ivf''")
  case True
  with assms(1) have "withFrameRate fps [ReaderTrackWithOnWriteComplete] = Inr opts"
    by (simp add: publishFile_opts_def)
  from withFrameRate_gate [OF this assms(2)] True show ?thesis by simp
next
  case False
  with assms show ?thesis by (auto simp: publishFile_opts_def)
qed

lemma loop_body_Return:
  "loop_body e k mime rs tr = Return x tr' \<Longrightarrow>
   \<exists>new. tr' = tr @ new \<and> \<not> list_ex sets_frame_duration new"
  by (auto simp: loop_body_def sets_frame_duration_def Let_def
      split: option.splits if_splits)

lemma loop_body_Again:
  "loop_body e k mime rs tr = Again rs' tr' \<Longrightarrow>
   \<exists>new. tr' = tr @ new \<and> \<not> list_ex sets_frame_duration new"
  by (auto simp: loop_body_def sets_frame_duration_def Let_def
      split: option.splits if_splits)

lemma data_loop_extends:
  assumes "data_loop e k mime rs tr = Some y"
  shows "\<exists>new. snd y = tr @ new \<and> \<not> list_ex sets_frame_duration new"
proof (rule data_loop.raw_induct
    [where P = "\<lambda>e k mime rs tr y. \<exists>new. snd y = tr @ new \<and> \<not> list_ex sets_frame_duration new",
      OF _ assms])
  fix loop :: "env \<Rightarrow> ending \<Rightarrow> string \<Rightarrow> (string \<times> read_err option) list \<Rightarrow> effect list \<Rightarrow>
      (error \<times> effect list) option"
  fix e k mime rs tr y
  assume IH: "\<And>e k mime rs tr y. loop e k mime rs tr = Some y \<Longrightarrow>
      \<exists>new. snd y = tr @ new \<and> \<not> list_ex sets_frame_duration new"
  assume step: "(case loop_body e k mime rs tr of
       Return x tr' \<Rightarrow> Some (x, tr')
     | Again rs' tr' \<Rightarrow> loop e k mime rs' tr'
     | Stuck tr' \<Rightarrow> None) = Some y"
  show "\<exists>new. snd y = tr @ new \<and> \<not> list_ex sets_frame_duration new"
  proof (cases "loop_body e k mime rs tr")
    case (Return x tr')
    with step have "y = (x, tr')" by simp
    with loop_body_Return [OF Return] show ?thesis by simp
  next
    case (Again rs' tr')
    with step have "loop e k mime rs' tr' = Some y" by simp
    from IH [OF this] obtain new where
      new: "snd y = tr' @ new" "\<not> list_ex sets_frame_duration new"
      by blast
    from loop_body_Again [OF Again] obtain new' where
      new': "tr' = tr @ new'" "\<not> list_ex sets_frame_duration new'" by blast
    from new new' have "snd y = tr @ (new' @ new) \<and> \<not> list_ex sets_frame_duration (new' @ new)"
      by (auto simp: list_ex_iff)
    then show ?thesis by blast
  next
    case (Stuck tr')
    with step show ?thesis by simp
  qed
qed

lemma publishReader_gate:
  assumes "publishReader e inp mime fps tr = Some (r, tr')"
  shows "\<exists>new. tr' = tr @ new \<and>
     (list_ex sets_frame_duration new \<longrightarrow>
        fps \<noteq> 0 \<and> (strings_EqualFold mime MimeTypeVP8 \<or> strings_EqualFold mime MimeTypeH264))"
proof (cases "publishReader_opts mime fps")
  case (Inl p)
  with assms have "tr' = tr @ []" by (simp add: publishReader_def)
  then show ?thesis by (intro exI [of _ "[]"]) simp
next
  case (Inr opts)
  show ?thesis
  proof (cases "mime \<noteq> MimeTypeDataByte")
    case True
    with assms Inr have "tr' = tr @ [NewLocalReaderTrack mime opts] \<or>
        tr' = tr @ [NewLocalReaderTrack mime opts, PublishTrack []]"
      by (auto simp: publishReader_def Let_def split: option.splits sum.splits)
    then obtain new where new: "tr' = tr @ new"
      "new = [NewLocalReaderTrack mime opts] \<or> new = [NewLocalReaderTrack mime opts, PublishTrack []]"
      by auto
    from new(2) have "list_ex sets_frame_duration new \<longrightarrow> list_ex is_frame_duration opts"
      by (auto simp: sets_frame_duration_def)
    with publishReader_opts_gate [OF Inr] new(1) show ?thesis by blast
  next
    case False
    with assms Inr obtain x where "data_loop e (ending inp) mime (reads inp) tr = Some (x, tr')"
      by (auto simp: publishReader_def split: option.splits)
    from data_loop_extends [OF this] show ?thesis by auto
  qed
qed

lemma publishFile_gate:
  assumes "publishFile e filename fps tr = Some (r, tr')"
  shows "\<exists>new. tr' = tr @ new \<and>
     (list_ex sets_frame_duration new \<longrightarrow>
        fps \<noteq> 0 \<and> (filepath_Ext filename = ''.h264'' \<or> filepath_Ext filename = ''.ivf''))"
proof (cases "publishFile_opts filename fps")
  case (Inl p)
  with assms have "tr' = tr @ []" by (simp add: publishFile_def)
  then show ?thesis by (intro exI [of _ "[]"]) simp
next
  case (Inr opts)
  with assms have "tr' = tr @ [NewLocalFileTrack filename opts] \<or>
        tr' = tr @ [NewLocalFileTrack filename opts, PublishTrack filename]"
    by (auto simp: publishFile_def Let_def split: option.splits sum.splits)
  then obtain new where new: "tr' = tr @ new"
    "new = [NewLocalFileTrack filename opts] \<or> new = [NewLocalFileTrack filename opts, PublishTrack filename]"
    by auto
  from new(2) have "list_ex sets_frame_duration new \<longrightarrow> list_ex is_frame_duration opts"
    by (auto simp: sets_frame_duration_def)
  with publishFile_opts_gate [OF Inr] new(1) show ?thesis by blast
qed


lemma video_keys:
  assumes "mimeType \<in> {''data'', ''h264'', ''vp8'', ''opus''}"
    and "publishSocket_mime mimeType = Inr mime"
    and "strings_EqualFold mime MimeTypeVP8 \<or> strings_EqualFold mime MimeTypeH264"
  shows "mimeType = ''h264'' \<or> mimeType = ''vp8''"
proof -
  have a: "publishSocket_mime ''data'' = Inr MimeTypeDataByte"
    by (simp add: publishSocket_mime_def strings_Contains_def strings_Index_def)
  have b: "publishSocket_mime ''opus'' = Inr MimeTypeOpus"
    by (simp add: publishSocket_mime_def strings_Contains_def strings_Index_def)
  have c: "\<not> strings_EqualFold MimeTypeDataByte MimeTypeVP8"
    "\<not> strings_EqualFold MimeTypeDataByte MimeTypeH264"
    "\<not> strings_EqualFold MimeTypeOpus MimeTypeVP8"
    "\<not> strings_EqualFold MimeTypeOpus MimeTypeH264"
    by (simp_all add: strings_EqualFold_def MimeTypeDataByte_def MimeTypeVP8_def
        MimeTypeH264_def MimeTypeOpus_def to_lower_def)
  from assms(1) consider "mimeType = ''data''" | "mimeType = ''opus''"
    | "mimeType = ''h264'' \<or> mimeType = ''vp8''" by auto
  then show ?thesis
  proof cases
    case 1
    with assms(2) a have "mime = MimeTypeDataByte" by simp
    with assms(3) c show ?thesis by simp
  next
    case 2
    with assms(2) b have "mime = MimeTypeOpus" by simp
    with assms(3) c show ?thesis by simp
  next
    case 3
    then show ?thesis .
  qed
qed

lemma publishSocket_gate:
  assumes "publishSocket e mimeType socketType address fps tr = Some (r, tr')"
    and "mimeType \<in> {''data'', ''h264'', ''vp8'', ''opus''}"
  shows "\<exists>new. tr' = tr @ new \<and>
     (list_ex sets_frame_duration new \<longrightarrow>
        fps \<noteq> 0 \<and> (mimeType = ''h264'' \<or> mimeType = ''vp8''))"
proof (cases "publishSocket_mime mimeType")
  case (Inl x)
  with assms(1) have "tr' = tr @ []" by (simp add: publishSocket_def)
  then show ?thesis by (intro exI [of _ "[]"]) simp
next
  case (Inr mime)
  show ?thesis
  proof (cases "net_Dial e tr socketType address")
    case (Inl x)
    with assms(1) Inr have "tr' = tr @ [Dial socketType address]"
      by (simp add: publishSocket_def)
    then show ?thesis
      by (intro exI [of _ "[Dial socketType address]"]) (simp add: sets_frame_duration_def)
  next
    case (Inr sock)
    with assms(1) \<open>publishSocket_mime mimeType = Inr mime\<close>
    have "publishReader e sock mime fps (tr @ [Dial socketType address]) = Some (r, tr')"
      by (simp add: publishSocket_def)
    from publishReader_gate [OF this] obtain new where
      new: "tr' = (tr @ [Dial socketType address]) @ new"
      "list_ex sets_frame_duration new \<longrightarrow>
        fps \<noteq> 0 \<and> (strings_EqualFold mime MimeTypeVP8 \<or> strings_EqualFold mime MimeTypeH264)"
      by blast
    have "list_ex sets_frame_duration (Dial socketType address # new) \<longrightarrow>
        fps \<noteq> 0 \<and> (mimeType = ''h264'' \<or> mimeType = ''vp8'')"
      using new(2) video_keys [OF assms(2) \<open>publishSocket_mime mimeType = Inr mime\<close>]
      by (auto simp: sets_frame_duration_def)
    moreover from new(1) have "tr' = tr @ (Dial socketType address # new)" by simp
    ultimately show ?thesis by blast
  qed
qed

text \<open>
  Claim C9. A call of \<open>handlePublish\<close> that returns has only added to the log. If a track
  it created carries a frame duration, then the rate is not 0 and either the specifier
  is a socket specifier whose mime key is h264 or vp8, or it is a file name whose
  extension is \<open>.h264\<close> or \<open>.ivf\<close>. So with any other key or extension, or with rate 0,
  no frame duration is set.
\<close>

theorem frame_duration_gate:
  assumes "handlePublish e name fps tr = Some (r, tr')"
  shows "\<exists>new. tr' = tr @ new \<and>
     (list_ex sets_frame_duration new \<longrightarrow>
        fps \<noteq> 0 \<and>
        (if isSocketFormat name
         then \<exists>socketType address.
                parseSocketFromName name = Inr (''h264'', socketType, address) \<or>
                parseSocketFromName name = Inr (''vp8'', socketType, address)
         else filepath_Ext name = ''.h264'' \<or> filepath_Ext name = ''.ivf''))"
proof (cases "isSocketFormat name")
  case False
  with assms have "publishFile e name fps tr = Some (r, tr')" by (simp add: handlePublish_def)
  from publishFile_gate [OF this] False show ?thesis by simp
next
  case True
  show ?thesis
  proof (cases "parseSocketFromName name")
    case (Inl x)
    with assms True have "tr' = tr @ []" by (simp add: handlePublish_def)
    then show ?thesis by (intro exI [of _ "[]"]) simp
  next
    case (Inr p)
    obtain mimeType socketType address where p: "p = (mimeType, socketType, address)"
      by (cases p) auto
    with Inr have parsed: "parseSocketFromName name = Inr (mimeType, socketType, address)" by simp
    with assms True have ps: "publishSocket e mimeType socketType address fps tr = Some (r, tr')"
      by (simp add: handlePublish_def)
    from parse_Inr [OF parsed] have key: "mimeType \<in> {''data'', ''h264'', ''vp8'', ''opus''}"
      by simp
    from publishSocket_gate [OF ps key] obtain new where new: "tr' = tr @ new"
      "list_ex sets_frame_duration new \<longrightarrow> fps \<noteq> 0 \<and> (mimeType = ''h264'' \<or> mimeType = ''vp8'')"
      by blast
    have "list_ex sets_frame_duration new \<longrightarrow> fps \<noteq> 0 \<and>
        (\<exists>socketType address.
                parseSocketFromName name = Inr (''h264'', socketType, address) \<or>
                parseSocketFromName name = Inr (''vp8'', socketType, address))"
      using new(2) parsed by blast
    with new(1) True show ?thesis by (intro exI [of _ new]) simp
  qed
qed

text \<open>
  C9 at the specifier \<open>h264://127.0.0.1:1234\<close> with rate 25, where a frame duration of
  40 ms is set.
\<close>

theorem frame_duration_gate_witness:
  "handlePublish willing ''h264://127.0.0.1:1234'' 25 [] =
     Some (Nil, [Dial ''tcp'' ''127.0.0.1:1234'',
                 NewLocalReaderTrack ''video/H264''
                   [ReaderTrackWithOnWriteComplete, ReaderTrackWithFrameDuration 40000000],
                 PublishTrack []]) \<and>
   sets_frame_duration (NewLocalReaderTrack ''video/H264''
                   [ReaderTrackWithOnWriteComplete, ReaderTrackWithFrameDuration 40000000]) \<and>
   (25 :: real) \<noteq> 0 \<and> isSocketFormat ''h264://127.0.0.1:1234'' \<and>
   parseSocketFromName ''h264://127.0.0.1:1234'' = Inr (''h264'', ''tcp'', ''127.0.0.1:1234'')"
proof -
  have p: "parseSocketFromName ''h264://127.0.0.1:1234'' = Inr (''h264'', ''tcp'', ''127.0.0.1:1234'')"
    by (simp add: parseSocketFromName_def strings_Contains_def strings_Index_def mimeDelimiter_def)
  have s: "isSocketFormat ''h264://127.0.0.1:1234''"
    by (simp add: isSocketFormat_def strings_Contains_def strings_Index_def mimeDelimiter_def)
  have m: "publishSocket_mime ''h264'' = Inr ''video/H264''"
    by (simp add: publishSocket_mime_def strings_Contains_def strings_Index_def MimeTypeH264_def)
  have o: "publishReader_opts ''video/H264'' 25 =
      Inr [ReaderTrackWithOnWriteComplete, ReaderTrackWithFrameDuration 40000000]"
    by (simp add: publishReader_opts_def strings_EqualFold_def MimeTypeH264_def withFrameRate_def
        frameDuration_def int_quo_def time_Duration_def time_Second_def)
  have h: "handlePublish willing ''h264://127.0.0.1:1234'' 25 [] =
     Some (Nil, [Dial ''tcp'' ''127.0.0.1:1234'',
                 NewLocalReaderTrack ''video/H264''
                   [ReaderTrackWithOnWriteComplete, ReaderTrackWithFrameDuration 40000000],
                 PublishTrack []])"
    by (simp add: handlePublish_def s p publishSocket_def m publishReader_def o willing_def
        MimeTypeDataByte_def)
  have f: "sets_frame_duration (NewLocalReaderTrack ''video/H264''
                   [ReaderTrackWithOnWriteComplete, ReaderTrackWithFrameDuration 40000000])"
    by (simp add: sets_frame_duration_def)
  from frame_duration_gate [OF h] obtain new where
    n: "[Dial ''tcp'' ''127.0.0.1:1234'',
         NewLocalReaderTrack ''video/H264''
           [ReaderTrackWithOnWriteComplete, ReaderTrackWithFrameDuration 40000000],
         PublishTrack []] = [] @ new"
    and g: "list_ex sets_frame_duration new \<longrightarrow> (25 :: real) \<noteq> 0"
    by blast
  from n f have "list_ex sets_frame_duration new" by auto
  with g have "(25 :: real) \<noteq> 0" by blast
  with h f s p show ?thesis by blast
qed

section \<open>Claims about the data streaming loop\<close>

lemma ReadFrom_plain:
  "ReadFrom (map (\<lambda>b. (b, None)) bs @ rest) k buf = ReadFrom rest k (buf @ concat bs)"
  by (induction bs arbitrary: buf) simp_all

lemma loop_body_closed:
  "loop_body e Closed mime [] tr = Again [] (tr @ [Sleep (10 * time_Millisecond)])"
  by (simp add: loop_body_def)

lemma data_loop_closed_aux:
  assumes "data_loop e k mime rs tr = Some y"
  shows "\<not> (k = Closed \<and> rs = [])"
proof (rule data_loop.raw_induct
    [where P = "\<lambda>e k mime rs tr y. \<not> (k = Closed \<and> rs = [])", OF _ assms])
  fix loop :: "env \<Rightarrow> ending \<Rightarrow> string \<Rightarrow> (string \<times> read_err option) list \<Rightarrow> effect list \<Rightarrow>
      (error \<times> effect list) option"
  fix e k mime rs tr y
  assume IH: "\<And>e k mime rs tr y. loop e k mime rs tr = Some y \<Longrightarrow> \<not> (k = Closed \<and> rs = [])"
  assume step: "(case loop_body e k mime rs tr of
       Return x tr' \<Rightarrow> Some (x, tr')
     | Again rs' tr' \<Rightarrow> loop e k mime rs' tr'
     | Stuck tr' \<Rightarrow> None) = Some y"
  show "\<not> (k = Closed \<and> rs = [])"
  proof
    assume "k = Closed \<and> rs = []"
    with step have "loop e Closed mime [] (tr @ [Sleep (10 * time_Millisecond)]) = Some y"
      by (simp add: loop_body_closed)
    from IH [OF this] show False by simp
  qed
qed

lemma data_loop_closed: "data_loop e Closed mime [] tr = None"
proof (cases "data_loop e Closed mime [] tr")
  case None
  then show ?thesis .
next
  case (Some y)
  from data_loop_closed_aux [OF this] show ?thesis by simp
qed

lemma passes_closed:
  "passes n e Closed mime [] tr = Again [] (tr @ replicate n (Sleep (10 * time_Millisecond)))"
proof (induction n arbitrary: tr)
  case 0
  show ?case by simp
next
  case (Suc n)
  show ?case by (simp add: loop_body_closed Suc.IH replicate_app_Cons_same)
qed

lemma data_loop_Return:
  "loop_body e k mime rs tr = Return x tr' \<Longrightarrow> data_loop e k mime rs tr = Some (x, tr')"
  by (subst data_loop.simps) simp

lemma data_loop_Again:
  "loop_body e k mime rs tr = Again rs' tr' \<Longrightarrow>
   data_loop e k mime rs tr = data_loop e k mime rs' tr'"
  by (subst data_loop.simps) simp

lemma data_loop_Stuck:
  "loop_body e k mime rs tr = Stuck tr' \<Longrightarrow> data_loop e k mime rs tr = None"
  by (subst data_loop.simps) simp

lemma publishReader_data:
  "publishReader e \<lparr>reads = rs, ending = k\<rparr> MimeTypeDataByte fps tr =
   (case data_loop e k MimeTypeDataByte rs tr of None \<Rightarrow> None | Some (x, tr') \<Rightarrow> Some (Err x, tr'))"
proof -
  have "\<not> strings_EqualFold MimeTypeDataByte MimeTypeVP8"
    "\<not> strings_EqualFold MimeTypeDataByte MimeTypeH264"
    by (simp_all add: strings_EqualFold_def MimeTypeDataByte_def MimeTypeVP8_def
        MimeTypeH264_def to_lower_def)
  then have "publishReader_opts MimeTypeDataByte fps = Inr [ReaderTrackWithOnWriteComplete]"
    by (simp add: publishReader_opts_def)
  then show ?thesis by (simp add: publishReader_def)
qed

lemma handlePublish_data:
  "handlePublish (serving rs k) ''data:///tmp/x.sock'' fps [] =
   publishReader (serving rs k) \<lparr>reads = rs, ending = k\<rparr> MimeTypeDataByte fps [Dial ''unix'' ''/tmp/x.sock'']"
proof -
  have p: "parseSocketFromName ''data:///tmp/x.sock'' = Inr (''data'', ''unix'', ''/tmp/x.sock'')"
    by (simp add: parseSocketFromName_def strings_Contains_def strings_Index_def mimeDelimiter_def)
  have s: "isSocketFormat ''data:///tmp/x.sock''"
    by (simp add: isSocketFormat_def strings_Contains_def strings_Index_def mimeDelimiter_def)
  have m: "publishSocket_mime ''data'' = Inr MimeTypeDataByte"
    by (simp add: publishSocket_mime_def strings_Contains_def strings_Index_def)
  show ?thesis
    by (simp add: handlePublish_def s p publishSocket_def m serving_def willing_def)
qed

text \<open>
  Claim C4, as the code has it. When, in a pass of the loop, a read fails with an error
  other than end of stream (after any number of reads without error), the loop stops in
  that pass: it returns the error of the read, forwards nothing of what the pass had
  read, and \<open>publishReader\<close> hands the error to its caller as the failure of the
  operation.
\<close>

theorem read_error_stops:
  "data_loop e k mime (map (\<lambda>b. (b, None)) bs @ (b, Some (io_Err m)) # rest) tr =
     Some (Foreign m, tr) \<and>
   publishReader e \<lparr>reads = map (\<lambda>b. (b, None)) bs @ (b, Some (io_Err m)) # rest, ending = k\<rparr>
       MimeTypeDataByte fps tr =
     Some (Err (Foreign m), tr)"
proof -
  have "\<And>mime. loop_body e k mime (map (\<lambda>b. (b, None)) bs @ (b, Some (io_Err m)) # rest) tr =
      Return (Foreign m) tr"
    by (simp add: loop_body_def ReadFrom_plain)
  then have "\<And>mime. data_loop e k mime (map (\<lambda>b. (b, None)) bs @ (b, Some (io_Err m)) # rest) tr =
     Some (Foreign m, tr)"
    by (rule data_loop_Return)
  then show ?thesis by (simp add: publishReader_data)
qed

text \<open>
  C4 as stated has the loop stop at the end of the stream, and report the end of the
  source as a completion. On a closed connection, where every read signals end of
  stream, the loop never returns and goes on making passes, each with a sleep; and a
  read error comes back from \<open>joinRoom\<close>'s loop as the error of the run.
\<close>

theorem end_of_stream_counterexample:
  "data_loop willing Closed MimeTypeDataByte [] [] = None \<and>
   passes 3 willing Closed MimeTypeDataByte [] [] =
     Again [] [Sleep (10 * time_Millisecond), Sleep (10 * time_Millisecond),
               Sleep (10 * time_Millisecond)] \<and>
   joinRoom_publish (serving [([], Some (io_Err ''connection reset''))] Closed)
       [''data:///tmp/x.sock''] 0 [] =
     Some (Err (Foreign ''connection reset''), [Dial ''unix'' ''/tmp/x.sock''])"
proof -
  have "data_loop (serving [([], Some (io_Err ''connection reset''))] Closed) Closed MimeTypeDataByte
      [([], Some (io_Err ''connection reset''))] [Dial ''unix'' ''/tmp/x.sock''] =
      Some (Foreign ''connection reset'', [Dial ''unix'' ''/tmp/x.sock''])"
    by (rule data_loop_Return) (simp add: loop_body_def)
  then have "joinRoom_publish (serving [([], Some (io_Err ''connection reset''))] Closed)
       [''data:///tmp/x.sock''] 0 [] =
     Some (Err (Foreign ''connection reset''), [Dial ''unix'' ''/tmp/x.sock''])"
    by (simp add: handlePublish_data publishReader_data)
  moreover have "passes 3 willing Closed MimeTypeDataByte [] [] =
     Again [] [Sleep (10 * time_Millisecond), Sleep (10 * time_Millisecond),
               Sleep (10 * time_Millisecond)]"
    by (simp add: passes_closed numeral_3_eq_3)
  ultimately show ?thesis by (simp add: data_loop_closed)
qed


lemma loop_body_no_EXIT:
  "PublishData ''EXIT'' kind \<notin> set tr \<Longrightarrow>
   PublishData ''EXIT'' kind \<notin> set (log_of (loop_body e k mime rs tr))"
  by (auto simp: loop_body_def Let_def split: option.splits)

lemma passes_no_EXIT:
  "PublishData ''EXIT'' kind \<notin> set tr \<Longrightarrow>
   PublishData ''EXIT'' kind \<notin> set (log_of (passes n e k mime rs tr))"
proof (induction n arbitrary: rs tr)
  case 0
  then show ?case by simp
next
  case (Suc n)
  show ?case
  proof (cases "loop_body e k mime rs tr")
    case (Again rs' tr')
    with loop_body_no_EXIT [OF Suc.prems, of e k mime rs]
    have "PublishData ''EXIT'' kind \<notin> set tr'" by simp
    from Suc.IH [OF this] Again show ?thesis by simp
  next
    case (Return x tr')
    with loop_body_no_EXIT [OF Suc.prems, of e k mime rs] show ?thesis by simp
  next
    case (Stuck tr')
    with loop_body_no_EXIT [OF Suc.prems, of e k mime rs] show ?thesis by simp
  qed
qed

text \<open>
  Claim C6, as the code has it. When the bytes a pass of the loop has read are exactly
  \<open>EXIT\<close>, the loop forwards nothing and stops: it returns the error value built by
  \<open>fmt.Errorf\<close>, with the text "finished writing data/byte stream", and \<open>publishReader\<close>
  returns that error to its caller. In no pass is a message with payload \<open>EXIT\<close>
  forwarded.
\<close>

theorem sentinel_stops:
  "(ReadFrom rs k [] = Some (''EXIT'', None, rs') \<longrightarrow>
      data_loop e k mime rs tr = Some (Errorf (''finished writing '' @ mime @ '' stream''), tr) \<and>
      publishReader e \<lparr>reads = rs, ending = k\<rparr> MimeTypeDataByte fps tr =
        Some (Err (Errorf ''finished writing data/byte stream''), tr)) \<and>
   (PublishData ''EXIT'' kind \<notin> set tr \<longrightarrow>
      PublishData ''EXIT'' kind \<notin> set (log_of (passes n e k mime rs tr)))"
proof (intro conjI impI)
  assume r: "ReadFrom rs k [] = Some (''EXIT'', None, rs')"
  have "\<And>mime. loop_body e k mime rs tr =
      Return (Errorf (''finished writing '' @ mime @ '' stream'')) tr"
    by (simp add: loop_body_def r)
  then have d: "\<And>mime. data_loop e k mime rs tr =
      Some (Errorf (''finished writing '' @ mime @ '' stream''), tr)"
    by (rule data_loop_Return)
  show "data_loop e k mime rs tr = Some (Errorf (''finished writing '' @ mime @ '' stream''), tr)"
    by (rule d)
  show "publishReader e \<lparr>reads = rs, ending = k\<rparr> MimeTypeDataByte fps tr =
        Some (Err (Errorf ''finished writing data/byte stream''), tr)"
    by (simp add: publishReader_data d) (simp add: MimeTypeDataByte_def)
next
  assume "PublishData ''EXIT'' kind \<notin> set tr"
  then show "PublishData ''EXIT'' kind \<notin> set (log_of (passes n e k mime rs tr))"
    by (rule passes_no_EXIT)
qed

text \<open>
  C6 at a reader that gives \<open>EXIT\<close> and then \<open>world\<close>, each ended by an end of stream,
  after \<open>hello\<close> has been forwarded.
\<close>

theorem sentinel_stops_witness:
  "ReadFrom [(''EXIT'', Some io_EOF), (''world'', Some io_EOF)] Closed [] =
     Some (''EXIT'', None, [(''world'', Some io_EOF)]) \<and>
   data_loop willing Closed MimeTypeDataByte [(''EXIT'', Some io_EOF), (''world'', Some io_EOF)]
       [PublishData ''hello'' RELIABLE] =
     Some (Errorf ''finished writing data/byte stream'', [PublishData ''hello'' RELIABLE]) \<and>
   PublishData ''EXIT'' RELIABLE \<notin> set [PublishData ''hello'' RELIABLE] \<and>
   PublishData ''EXIT'' RELIABLE \<notin> set (log_of (passes 2 willing Closed MimeTypeDataByte
       [(''EXIT'', Some io_EOF), (''world'', Some io_EOF)] [PublishData ''hello'' RELIABLE]))"
proof -
  have a: "ReadFrom [(''EXIT'', Some io_EOF), (''world'', Some io_EOF)] Closed [] =
     Some (''EXIT'', None, [(''world'', Some io_EOF)])" by simp
  have b: "PublishData ''EXIT'' RELIABLE \<notin> set [PublishData ''hello'' RELIABLE]" by simp
  from a b sentinel_stops [of "[(''EXIT'', Some io_EOF), (''world'', Some io_EOF)]" Closed
      "[(''world'', Some io_EOF)]" willing MimeTypeDataByte "[PublishData ''hello'' RELIABLE]"
      0 RELIABLE 2]
  show ?thesis by (simp add: MimeTypeDataByte_def)
qed

text \<open>
  C6 as stated has the loop stop without an error. With a reader that gives \<open>EXIT\<close>, the
  run over a data specifier ends with an error outcome, not with \<open>nil\<close>.
\<close>

theorem sentinel_counterexample:
  "joinRoom_publish (serving [(''EXIT'', Some io_EOF)] Closed) [''data:///tmp/x.sock''] 0 [] =
     Some (Err (Errorf ''finished writing data/byte stream''), [Dial ''unix'' ''/tmp/x.sock'']) \<and>
   joinRoom_publish (serving [(''EXIT'', Some io_EOF)] Closed) [''data:///tmp/x.sock''] 0 [] \<noteq>
     Some (Nil, [Dial ''unix'' ''/tmp/x.sock''])"
proof -
  have "data_loop (serving [(''EXIT'', Some io_EOF)] Closed) Closed MimeTypeDataByte
      [(''EXIT'', Some io_EOF)] [Dial ''unix'' ''/tmp/x.sock''] =
      Some (Errorf ''finished writing data/byte stream'', [Dial ''unix'' ''/tmp/x.sock''])"
    by (rule data_loop_Return) (simp add: loop_body_def MimeTypeDataByte_def)
  then show ?thesis
    by (simp add: handlePublish_data publishReader_data)
qed

text \<open>
  When each chunk is ended by its own end of stream, a pass reads one chunk: \<open>hello\<close> is
  forwarded, and the loop returns at \<open>EXIT\<close> with \<open>world\<close> unread.
\<close>

lemma run_delimited_chunks:
  "data_loop willing Closed MimeTypeDataByte
       [(''hello'', Some io_EOF), (''EXIT'', Some io_EOF), (''world'', Some io_EOF)] [] =
     Some (Errorf ''finished writing data/byte stream'',
       [Printf (''hello'' @ [CHR 0x0A]) [], PublishData ''hello'' RELIABLE,
        Sleep (10 * time_Millisecond)])"
proof -
  have a: "loop_body willing Closed MimeTypeDataByte
       [(''hello'', Some io_EOF), (''EXIT'', Some io_EOF), (''world'', Some io_EOF)] [] =
     Again [(''EXIT'', Some io_EOF), (''world'', Some io_EOF)]
       [Printf (''hello'' @ [CHR 0x0A]) [], PublishData ''hello'' RELIABLE,
        Sleep (10 * time_Millisecond)]"
    by (simp add: loop_body_def willing_def)
  have b: "loop_body willing Closed MimeTypeDataByte
       [(''EXIT'', Some io_EOF), (''world'', Some io_EOF)]
       [Printf (''hello'' @ [CHR 0x0A]) [], PublishData ''hello'' RELIABLE,
        Sleep (10 * time_Millisecond)] =
     Return (Errorf ''finished writing data/byte stream'')
       [Printf (''hello'' @ [CHR 0x0A]) [], PublishData ''hello'' RELIABLE,
        Sleep (10 * time_Millisecond)]"
    by (simp add: loop_body_def MimeTypeDataByte_def)
  show ?thesis
    by (simp only: data_loop_Again [OF a] data_loop_Return [OF b])
qed

text \<open>
  Claim C1, evaluated. The reader gives \<open>hello\<close>, \<open>EXIT\<close>, \<open>world\<close> in three reads. When the
  connection is then closed, the first pass reads all three into one buffer, which is
  not \<open>EXIT\<close>: after any number of passes the one message forwarded is
  \<open>helloEXITworld\<close>, the loop is still running, and it never returns. When the
  connection stays open and silent, the first read of the loop never returns and
  nothing is forwarded.
\<close>

theorem run_hello_EXIT_world:
  "data_loop willing Closed MimeTypeDataByte
       [(''hello'', None), (''EXIT'', None), (''world'', None)] [] = None \<and>
   forwarded (log_of (passes (Suc n) willing Closed MimeTypeDataByte
       [(''hello'', None), (''EXIT'', None), (''world'', None)] [])) =
     [PublishData ''helloEXITworld'' RELIABLE] \<and>
   (\<exists>tr. passes (Suc n) willing Closed MimeTypeDataByte
       [(''hello'', None), (''EXIT'', None), (''world'', None)] [] = Again [] tr) \<and>
   data_loop willing Silent MimeTypeDataByte
       [(''hello'', None), (''EXIT'', None), (''world'', None)] [] = None \<and>
   passes (Suc n) willing Silent MimeTypeDataByte
       [(''hello'', None), (''EXIT'', None), (''world'', None)] [] = Stuck []"
proof -
  let ?src = "[(''hello'', None), (''EXIT'', None), (''world'', None)]"
  let ?tr = "[Printf (''helloEXITworld'' @ [CHR 0x0A]) [], PublishData ''helloEXITworld'' RELIABLE,
      Sleep (10 * time_Millisecond)]"
  have b: "loop_body willing Closed MimeTypeDataByte ?src [] = Again [] ?tr"
    by (simp add: loop_body_def willing_def)
  have s: "loop_body willing Silent MimeTypeDataByte ?src [] = Stuck []"
    by (simp add: loop_body_def)
  have "data_loop willing Closed MimeTypeDataByte ?src [] = None"
    by (simp add: data_loop_Again [OF b] data_loop_closed)
  moreover have p: "passes (Suc n) willing Closed MimeTypeDataByte ?src [] =
      Again [] (?tr @ replicate n (Sleep (10 * time_Millisecond)))"
    by (simp add: b passes_closed)
  moreover have "forwarded (log_of (Again [] (?tr @ replicate n (Sleep (10 * time_Millisecond))))) =
      [PublishData ''helloEXITworld'' RELIABLE]"
    by (simp add: forwarded_def)
  moreover have "data_loop willing Silent MimeTypeDataByte ?src [] = None"
    by (rule data_loop_Stuck [OF s])
  moreover have "passes (Suc n) willing Silent MimeTypeDataByte ?src [] = Stuck []"
    by (simp add: s)
  ultimately show ?thesis by simp
qed

section \<open>Claims about a run over several specifiers\<close>

lemma joinRoom_publish_append:
  "joinRoom_publish e xs fps tr = Some (Nil, tr1) \<Longrightarrow>
   joinRoom_publish e (xs @ ys) fps tr = joinRoom_publish e ys fps tr1"
proof (induction xs arbitrary: tr)
  case Nil
  then show ?case by simp
next
  case (Cons x xs)
  from Cons.prems obtain tr' where
    h: "handlePublish e x fps tr = Some (Nil, tr')" and
    rest: "joinRoom_publish e xs fps tr' = Some (Nil, tr1)"
    by (auto split: option.splits outcome.splits)
  from Cons.IH [OF rest] h show ?case by simp
qed

lemma joinRoom_publish_fails:
  "handlePublish e pub fps tr = Some (r, tr') \<Longrightarrow> r \<noteq> Nil \<Longrightarrow>
   joinRoom_publish e (pub # pubs) fps tr = Some (r, tr')"
  by (cases r) simp_all

text \<open>
  Claim C2, as the code has it. The loop of \<open>joinRoom\<close> handles the specifiers one after
  the other and returns at the first failure. If the specifiers before \<open>pub\<close> have been
  handled without failure and handling \<open>pub\<close> fails (an invalid specifier, a refused
  dial, any error or panic), the run ends there with that failure: its outcome and its
  log are those reached at \<open>pub\<close>, whatever specifiers come after, so none of them is
  resolved or published. What the earlier specifiers did stays in the log.
\<close>

theorem failure_ends_run:
  assumes "joinRoom_publish e before fps tr = Some (Nil, tr1)"
    and "handlePublish e pub fps tr1 = Some (r, tr2)"
    and "r \<noteq> Nil"
  shows "joinRoom_publish e (before @ pub # after) fps tr = Some (r, tr2)"
  using joinRoom_publish_append [OF assms(1), of "pub # after"]
    joinRoom_publish_fails [OF assms(2,3), of after]
  by simp

lemma handlePublish_socket:
  assumes "parseSocketFromName name = Inr (mimeType, socketType, address)"
  shows "handlePublish e name fps tr = publishSocket e mimeType socketType address fps tr"
proof -
  from parse_Inr [OF assms] have "name = mimeType @ ''://'' @ address" by simp
  then have "strings_HasPrefix (drop (length mimeType) name) ''://''"
    by (simp add: HasPrefix_iff)
  moreover have "length mimeType \<le> length name"
    using \<open>name = mimeType @ ''://'' @ address\<close> by simp
  ultimately have "isSocketFormat name"
    unfolding isSocketFormat_def mimeDelimiter_def Contains_iff by blast
  with assms show ?thesis by (simp add: handlePublish_def)
qed

lemma publishSocket_h264_refused:
  "publishSocket (refusing bad) ''h264'' ''unix'' bad fps tr =
   Some (Err (Foreign ''connection refused''), tr @ [Dial ''unix'' bad])"
proof -
  have m: "publishSocket_mime ''h264'' = Inr MimeTypeH264"
    by (simp add: publishSocket_mime_def strings_Contains_def strings_Index_def)
  show ?thesis by (simp add: publishSocket_def m refusing_def willing_def)
qed

lemma publishReader_opts_h264:
  "publishReader_opts MimeTypeH264 25 =
     Inr [ReaderTrackWithOnWriteComplete, ReaderTrackWithFrameDuration 40000000]"
  by (simp add: publishReader_opts_def strings_EqualFold_def withFrameRate_def
      frameDuration_def int_quo_def time_Duration_def time_Second_def)

lemma publishSocket_h264_accepted:
  assumes "address \<noteq> bad"
  shows "publishSocket (refusing bad) ''h264'' ''unix'' address 25 tr =
   Some (Nil, tr @ [Dial ''unix'' address,
      NewLocalReaderTrack MimeTypeH264
        [ReaderTrackWithOnWriteComplete, ReaderTrackWithFrameDuration 40000000],
      PublishTrack []])"
proof -
  have m: "publishSocket_mime ''h264'' = Inr MimeTypeH264"
    by (simp add: publishSocket_mime_def strings_Contains_def strings_Index_def)
  have d: "MimeTypeH264 \<noteq> MimeTypeDataByte" by (simp add: MimeTypeH264_def MimeTypeDataByte_def)
  show ?thesis
    using assms
    by (simp add: publishSocket_def m refusing_def willing_def publishReader_def
        publishReader_opts_h264 d)
qed

lemma parse_a: "parseSocketFromName ''h264:///tmp/a.sock'' = Inr (''h264'', ''unix'', ''/tmp/a.sock'')"
  by (simp add: parseSocketFromName_def strings_Contains_def strings_Index_def mimeDelimiter_def)

lemma parse_b: "parseSocketFromName ''h264:///tmp/b.sock'' = Inr (''h264'', ''unix'', ''/tmp/b.sock'')"
  by (simp add: parseSocketFromName_def strings_Contains_def strings_Index_def mimeDelimiter_def)

lemma parse_c: "parseSocketFromName ''h264:///tmp/c.sock'' = Inr (''h264'', ''unix'', ''/tmp/c.sock'')"
  by (simp add: parseSocketFromName_def strings_Contains_def strings_Index_def mimeDelimiter_def)

lemma handle_a:
  "handlePublish (refusing ''/tmp/a.sock'') ''h264:///tmp/a.sock'' 25 tr =
   Some (Err (Foreign ''connection refused''), tr @ [Dial ''unix'' ''/tmp/a.sock''])"
  by (simp add: handlePublish_socket [OF parse_a] publishSocket_h264_refused)

lemma handle_b:
  "handlePublish (refusing ''/tmp/a.sock'') ''h264:///tmp/b.sock'' 25 tr =
   Some (Nil, tr @ [Dial ''unix'' ''/tmp/b.sock'',
      NewLocalReaderTrack MimeTypeH264
        [ReaderTrackWithOnWriteComplete, ReaderTrackWithFrameDuration 40000000],
      PublishTrack []])"
  by (simp add: handlePublish_socket [OF parse_b] publishSocket_h264_accepted)

text \<open>
  C2 at three socket specifiers, the dial for the second being refused: the first is
  published, the third is never dialled.
\<close>

theorem failure_ends_run_witness:
  "joinRoom_publish (refusing ''/tmp/a.sock'')
     ([''h264:///tmp/b.sock''] @ ''h264:///tmp/a.sock'' # [''h264:///tmp/c.sock'']) 25 [] =
   Some (Err (Foreign ''connection refused''),
     [Dial ''unix'' ''/tmp/b.sock'',
      NewLocalReaderTrack MimeTypeH264
        [ReaderTrackWithOnWriteComplete, ReaderTrackWithFrameDuration 40000000],
      PublishTrack [],
      Dial ''unix'' ''/tmp/a.sock''])"
proof -
  let ?tr1 = "[Dial ''unix'' ''/tmp/b.sock'',
      NewLocalReaderTrack MimeTypeH264
        [ReaderTrackWithOnWriteComplete, ReaderTrackWithFrameDuration 40000000],
      PublishTrack []]"
  have a: "joinRoom_publish (refusing ''/tmp/a.sock'') [''h264:///tmp/b.sock''] 25 [] =
      Some (Nil, ?tr1)"
    by (simp add: handle_b)
  have b: "handlePublish (refusing ''/tmp/a.sock'') ''h264:///tmp/a.sock'' 25 ?tr1 =
      Some (Err (Foreign ''connection refused''), ?tr1 @ [Dial ''unix'' ''/tmp/a.sock''])"
    by (rule handle_a)
  have c: "Err (Foreign ''connection refused'') \<noteq> Nil" by simp
  from failure_ends_run [OF a b c, of "[''h264:///tmp/c.sock'']"] show ?thesis by simp
qed

text \<open>
  C2 as stated has a failure leave the other specifiers of the run untouched. The
  specifier \<open>h264:///tmp/b.sock\<close> is published when it runs alone, and is not even
  dialled when it comes after a specifier whose dial is refused, or after an invalid
  one.
\<close>

theorem sibling_counterexample:
  "joinRoom_publish (refusing ''/tmp/a.sock'')
     [''h264:///tmp/a.sock'', ''h264:///tmp/b.sock''] 25 [] =
   Some (Err (Foreign ''connection refused''), [Dial ''unix'' ''/tmp/a.sock'']) \<and>
   joinRoom_publish (refusing ''/tmp/a.sock'') [''h264:///tmp/b.sock''] 25 [] =
   Some (Nil, [Dial ''unix'' ''/tmp/b.sock'',
      NewLocalReaderTrack MimeTypeH264
        [ReaderTrackWithOnWriteComplete, ReaderTrackWithFrameDuration 40000000],
      PublishTrack []]) \<and>
   joinRoom_publish willing [''bogus://x'', ''h264:///tmp/b.sock''] 25 [] =
   Some (Err (Errorf ''unsupported mime type: bogus''), [])"
proof -
  have s: "isSocketFormat ''bogus://x''"
    by (simp add: isSocketFormat_def strings_Contains_def strings_Index_def mimeDelimiter_def)
  have p: "parseSocketFromName ''bogus://x'' = Inl (Errorf ''unsupported mime type: bogus'')"
    by (simp add: parseSocketFromName_def strings_Contains_def strings_Index_def mimeDelimiter_def)
  have "handlePublish willing ''bogus://x'' 25 [] =
      Some (Err (Errorf ''unsupported mime type: bogus''), [])"
    by (simp add: handlePublish_def s p)
  then show ?thesis by (simp add: handle_a handle_b)
qed

section \<open>Claims about the completion hook\<close>

lemma no_hook_moments:
  "WriteComplete \<notin> set ms \<Longrightarrow> snd (foldl (moment_step hook) (pub, tr) ms) = tr"
proof (induction ms arbitrary: pub)
  case Nil
  show ?case by simp
next
  case (Cons m ms)
  then obtain r where m: "m = PublishReturned r" by (cases m) auto
  show ?case
  proof (cases r)
    case (Inl x)
    with m Cons show ?thesis by simp
  next
    case (Inr sid)
    with m Cons show ?thesis by simp
  qed
qed

lemma hook_once:
  assumes "WriteComplete \<notin> set before" "WriteComplete \<notin> set after"
  shows "snd (run_schedule hook (before @ WriteComplete # after)) =
         hook (fst (run_schedule hook before)) []"
proof -
  obtain pub tr where s: "run_schedule hook before = (pub, tr)" by (cases "run_schedule hook before")
  with no_hook_moments [OF assms(1), of hook None "[]"] have "tr = []"
    by (simp add: run_schedule_def)
  with s have "run_schedule hook (before @ WriteComplete # after) =
      foldl (moment_step hook) (pub, hook pub []) after"
    by (simp add: run_schedule_def)
  with no_hook_moments [OF assms(2), of hook pub "hook pub []"] s show ?thesis by simp
qed

text \<open>
  Claim C3, as the code has it. Take any schedule in which the completion hook of
  \<open>publishFile\<close> or \<open>publishReader\<close> runs once. If the publish call has returned a handle
  and it has been assigned before the hook runs, the hook attempts one unpublish, of
  that handle. If the hook runs before the assignment (or the publish call failed),
  \<open>pub\<close> is still \<open>nil\<close> and the hook attempts none. It never attempts two.
\<close>

theorem hook_unpublishes:
  assumes "WriteComplete \<notin> set before" "WriteComplete \<notin> set after"
    and "hook = onWriteComplete_file filename \<or> hook = onWriteComplete_reader mime"
  shows "unpublish_attempts (snd (run_schedule hook (before @ WriteComplete # after))) =
         (case fst (run_schedule hook before) of
            None \<Rightarrow> []
          | Some sid \<Rightarrow> [UnpublishTrack sid])"
  using assms(3)
  by (auto simp: hook_once [OF assms(1,2)] unpublish_attempts_def onWriteComplete_file_def
      onWriteComplete_reader_def split: option.splits)

text \<open>
  C3 at the two orders: the handle assigned first, and the hook first.
\<close>

theorem hook_unpublishes_witness:
  "unpublish_attempts (snd (run_schedule (onWriteComplete_reader MimeTypeH264)
       ([PublishReturned (Inr ''TR_1'')] @ WriteComplete # []))) = [UnpublishTrack ''TR_1''] \<and>
   unpublish_attempts (snd (run_schedule (onWriteComplete_file ''movie.h264'')
       ([] @ WriteComplete # [PublishReturned (Inr ''TR_1'')]))) = []"
proof -
  have a: "WriteComplete \<notin> set [PublishReturned (Inr ''TR_1'')]" by simp
  have b: "WriteComplete \<notin> set []" by simp
  have c: "onWriteComplete_reader MimeTypeH264 = onWriteComplete_file ''movie.h264'' \<or>
      onWriteComplete_reader MimeTypeH264 = onWriteComplete_reader MimeTypeH264" by simp
  have d: "onWriteComplete_file ''movie.h264'' = onWriteComplete_file ''movie.h264'' \<or>
      onWriteComplete_file ''movie.h264'' = onWriteComplete_reader MimeTypeH264" by simp
  from hook_unpublishes [OF a b c] hook_unpublishes [OF b a d]
  show ?thesis by (simp add: run_schedule_def)
qed

text \<open>
  C3 as stated has exactly one unpublish also when the hook fires before the handle is
  assigned. In that order no unpublish is attempted.
\<close>

theorem early_hook_counterexample:
  "unpublish_attempts (snd (run_schedule (onWriteComplete_reader MimeTypeH264)
       [WriteComplete, PublishReturned (Inr ''TR_1'')])) = [] \<and>
   unpublish_attempts (snd (run_schedule (onWriteComplete_file ''movie.h264'')
       [WriteComplete, PublishReturned (Inr ''TR_1'')])) = []"
  by (simp add: run_schedule_def unpublish_attempts_def onWriteComplete_reader_def
      onWriteComplete_file_def)

end
